theory Spec2Isabelle
  imports Complex_Main "HOL-Library.Sublist" "HOL-Library.Log_Nat"
begin

section \<open>Errors and outcomes\<close>

text \<open>
  The Python exceptions that the modelled code can raise. A method that mutates the
  store returns an \<open>outcome\<close>: the store after the call, together with the
  exception when the call raised. A method that only reads returns \<open>error + 'a\<close>.
\<close>

datatype error =
  AssertionError
| ValueError
| IndexError
| RuntimeError
| UnpicklingError
| OSError
| ZeroDivisionError
| OverflowError

datatype 's outcome = Returned 's | Raised error 's

fun state_of :: "'s outcome \<Rightarrow> 's" where
  "state_of (Returned s) = s"
| "state_of (Raised e s) = s"

fun raised :: "'s outcome \<Rightarrow> bool" where
  "raised (Returned s) = False"
| "raised (Raised e s) = True"

section \<open>Python's float arithmetic\<close>

text \<open>
  A Python \<^verbatim>\<open>float\<close> is an IEEE binary64 number. A finite one is the real number
  it denotes; \<open>float_round\<close> rounds a real to the nearest binary64 number, ties to
  the even significand, with the subnormal spacing below \<open>2^-1022\<close>. A real of
  magnitude \<open>DBL_OVERFLOW\<close> or more has no finite rounding.
\<close>

definition DBL_OVERFLOW :: real where
  "DBL_OVERFLOW = 2 ^ 1024 - 2 ^ 970"

text \<open>The exponent \<open>e\<close> with \<open>2^e \<le> |x| < 2^(e+1)\<close>, for \<open>x\<close> other than zero.\<close>

definition ilog2 :: "real \<Rightarrow> int" where
  "ilog2 x =
     (if 1 \<le> \<bar>x\<bar> then int (floorlog 2 (nat \<lfloor>\<bar>x\<bar>\<rfloor>)) - 1
      else - int (floorlog 2 (nat (\<lceil>1 / \<bar>x\<bar>\<rceil> - 1))))"

text \<open>Rounding to the nearest integer, a tie to the even one.\<close>

definition rne :: "real \<Rightarrow> int" where
  "rne y =
     (if y - of_int \<lfloor>y\<rfloor> < 1 / 2 then \<lfloor>y\<rfloor>
      else if 1 / 2 < y - of_int \<lfloor>y\<rfloor> then \<lfloor>y\<rfloor> + 1
      else if even \<lfloor>y\<rfloor> then \<lfloor>y\<rfloor>
      else \<lfloor>y\<rfloor> + 1)"

definition ulp :: "real \<Rightarrow> real" where
  "ulp x = 2 powi (max (ilog2 x) (- 1022) - 52)"

definition float_round :: "real \<Rightarrow> real" where
  "float_round x = (if x = 0 then 0 else of_int (rne (x / ulp x)) * ulp x)"

text \<open>
  The result of a float division may be infinite; only \<^verbatim>\<open>int()\<close> consumes it here,
  and \<^verbatim>\<open>int()\<close> raises on either infinity.
\<close>

datatype pyfloat = Fin real | Infinite

text \<open>
  \<^verbatim>\<open>a / b\<close> on two ints is the correctly rounded quotient, and raises when the
  divisor is zero or the quotient is too large for a float.
\<close>

definition int_truediv :: "int \<Rightarrow> int \<Rightarrow> error + real" where
  "int_truediv a b =
     (if b = 0 then Inl ZeroDivisionError
      else if DBL_OVERFLOW \<le> \<bar>of_int a / of_int b\<bar> then Inl OverflowError
      else Inr (float_round (of_int a / of_int b)))"

text \<open>The conversion of an int operand to float, which raises on an int too large.\<close>

definition int_to_float :: "int \<Rightarrow> error + real" where
  "int_to_float a =
     (if DBL_OVERFLOW \<le> \<bar>of_int a\<bar> then Inl OverflowError
      else Inr (float_round (of_int a)))"

text \<open>\<^verbatim>\<open>a / b\<close> on two floats raises on a zero divisor and overflows to infinity.\<close>

definition float_truediv :: "real \<Rightarrow> real \<Rightarrow> error + pyfloat" where
  "float_truediv a b =
     (if b = 0 then Inl ZeroDivisionError
      else if DBL_OVERFLOW \<le> \<bar>a / b\<bar> then Inr Infinite
      else Inr (Fin (float_round (a / b))))"

text \<open>\<^verbatim>\<open>int(x)\<close> on a float truncates towards zero.\<close>

fun py_int :: "pyfloat \<Rightarrow> error + int" where
  "py_int (Fin x) = Inr (if 0 \<le> x then \<lfloor>x\<rfloor> else \<lceil>x\<rceil>)"
| "py_int Infinite = Inl OverflowError"

section \<open>The chunker\<close>

text \<open>
  \<^verbatim>\<open>chunk_text\<close> of \<^verbatim>\<open>app/rag/ingest.py\<close>. A \<^verbatim>\<open>str\<close> is a list of code points;
  \<open>isspace\<close> is Python's \<^verbatim>\<open>str.isspace\<close> on one code point, and \<open>str_split\<close> is
  \<^verbatim>\<open>text.split()\<close>: the maximal runs of characters that are not whitespace.
\<close>

type_synonym pystr = "nat list"

definition isspace :: "nat \<Rightarrow> bool" where
  "isspace c =
     (c \<in> {9, 10, 11, 12, 13, 28, 29, 30, 31, 32, 133, 160,
            5760, 8232, 8233, 8239, 8287, 12288}
      \<or> (8192 \<le> c \<and> c \<le> 8202))"

fun split_from :: "pystr \<Rightarrow> pystr \<Rightarrow> pystr list" where
  "split_from w [] = (if w = [] then [] else [w])"
| "split_from w (c # cs) =
     (if isspace c then (if w = [] then split_from [] cs else w # split_from [] cs)
      else split_from (w @ [c]) cs)"

definition str_split :: "pystr \<Rightarrow> pystr list" where
  "str_split text = split_from [] text"

fun str_join :: "pystr \<Rightarrow> pystr list \<Rightarrow> pystr" where
  "str_join sep [] = []"
| "str_join sep [w] = w"
| "str_join sep (w # ws) = w @ sep @ str_join sep ws"

text \<open>The blank, and a string literal as a \<^verbatim>\<open>str\<close>.\<close>

definition blank :: pystr where
  "blank = [32]"

definition py :: "string \<Rightarrow> pystr" where
  "py s = map of_char s"

text \<open>
  \<^verbatim>\<open>int(overlap / (current_length / len(current_chunk)))\<close>: the inner division of two
  ints, the conversion of \<open>overlap\<close> to float, the float division and the
  truncation, each of which may raise.
\<close>

definition overlap_count :: "int \<Rightarrow> int \<Rightarrow> nat \<Rightarrow> error + int" where
  "overlap_count overlap current_length n =
     (case int_truediv current_length (int n) of
        Inl e \<Rightarrow> Inl e
      | Inr mean \<Rightarrow>
          (case int_to_float overlap of
             Inl e \<Rightarrow> Inl e
           | Inr ov \<Rightarrow>
               (case float_truediv ov mean of
                  Inl e \<Rightarrow> Inl e
                | Inr q \<Rightarrow> py_int q)))"

text \<open>\<^verbatim>\<open>sum(len(w) + 1 for w in current_chunk)\<close>.\<close>

definition weight :: "pystr list \<Rightarrow> int" where
  "weight ws = sum_list (map (\<lambda>w. int (length w) + 1) ws)"

text \<open>
  \<^verbatim>\<open>current_chunk[-overlap_words:] if overlap_words > 0 else []\<close>: the last
  \<open>overlap_words\<close> words, or all of them when there are fewer.
\<close>

definition carry :: "int \<Rightarrow> pystr list \<Rightarrow> pystr list" where
  "carry overlap_words current_chunk =
     (if overlap_words > 0
      then drop (length current_chunk - nat overlap_words) current_chunk
      else [])"

text \<open>The loop over the words, with the variables of the source.\<close>

fun chunk_loop ::
  "int \<Rightarrow> int \<Rightarrow> pystr list \<Rightarrow> pystr list \<Rightarrow> pystr list \<Rightarrow> int
     \<Rightarrow> error + (pystr list \<times> pystr list)" where
  "chunk_loop chunk_size overlap [] chunks current_chunk current_length =
     Inr (chunks, current_chunk)"
| "chunk_loop chunk_size overlap (word # words) chunks current_chunk current_length =
     (let current_chunk = current_chunk @ [word];
          current_length = current_length + (int (length word) + 1)
      in if current_length \<ge> chunk_size then
           (let chunks = chunks @ [str_join blank current_chunk]
            in case overlap_count overlap current_length (length current_chunk) of
                 Inl e \<Rightarrow> Inl e
               | Inr overlap_words \<Rightarrow>
                   (let current_chunk = carry overlap_words current_chunk;
                        current_length = weight current_chunk
                    in chunk_loop chunk_size overlap words chunks current_chunk
                         current_length))
         else chunk_loop chunk_size overlap words chunks current_chunk current_length)"

definition chunk_text :: "pystr \<Rightarrow> int \<Rightarrow> int \<Rightarrow> error + pystr list" where
  "chunk_text text chunk_size overlap =
     (case chunk_loop chunk_size overlap (str_split text) [] [] 0 of
        Inl e \<Rightarrow> Inl e
      | Inr (chunks, current_chunk) \<Rightarrow>
          Inr (if current_chunk \<noteq> [] then chunks @ [str_join blank current_chunk]
               else chunks))"

text \<open>
  The same loop on word lists, before the words of a chunk are joined: the chunks it
  emits and the chunk it ends with. It serves to state the loop invariants.
\<close>

fun chunk_words ::
  "int \<Rightarrow> int \<Rightarrow> pystr list \<Rightarrow> pystr list \<Rightarrow> int
     \<Rightarrow> error + (pystr list list \<times> pystr list)" where
  "chunk_words chunk_size overlap [] cur len = Inr ([], cur)"
| "chunk_words chunk_size overlap (word # words) cur len =
     (if len + (int (length word) + 1) \<ge> chunk_size then
        (case overlap_count overlap (len + (int (length word) + 1)) (length (cur @ [word])) of
           Inl e \<Rightarrow> Inl e
         | Inr overlap_words \<Rightarrow>
             (case chunk_words chunk_size overlap words
                     (carry overlap_words (cur @ [word]))
                     (weight (carry overlap_words (cur @ [word]))) of
                Inl e \<Rightarrow> Inl e
              | Inr (emitted, final) \<Rightarrow> Inr ((cur @ [word]) # emitted, final)))
      else chunk_words chunk_size overlap words (cur @ [word]) (len + (int (length word) + 1)))"

text \<open>
  De-duplicating the overlaps, as the property of the chunker words it: \<open>ks\<close> gives
  for each chunk the number of leading words that it shares with the chunk before
  it. \<open>overlaps_ok\<close> says that these leading words are indeed the last words of the
  chunk before; \<open>dedup_concat\<close> drops them and concatenates what is left.
\<close>

fun overlaps_ok :: "'a list \<Rightarrow> nat list \<Rightarrow> 'a list list \<Rightarrow> bool" where
  "overlaps_ok prev [] [] = True"
| "overlaps_ok prev (k # ks) (c # cs) =
     (k \<le> length prev \<and> k \<le> length c \<and> take k c = drop (length prev - k) prev
      \<and> overlaps_ok c ks cs)"
| "overlaps_ok prev _ _ = False"

fun dedup_concat :: "nat list \<Rightarrow> 'a list list \<Rightarrow> 'a list" where
  "dedup_concat (k # ks) (c # cs) = drop k c @ dedup_concat ks cs"
| "dedup_concat _ _ = []"

text \<open>A word as \<open>str_split\<close> yields it: not empty, and free of whitespace.\<close>

definition proper :: "pystr \<Rightarrow> bool" where
  "proper w = (w \<noteq> [] \<and> (\<forall>c\<in>set w. \<not> isspace c))"

text \<open>
  Fourteen words that weigh 36, for a chunk size of 36 and an overlap of 18: the
  float quotient \<open>18 / (36 / 14)\<close> is just below 7.
\<close>

definition text_14 :: pystr where
  "text_14 = py ''aa aa aa aa aa aa aa aa a a a a a a''"

section \<open>The flat L2 index and the array conversion\<close>

text \<open>
  Modelled from the spec: the spatial index \<^verbatim>\<open>faiss.IndexFlatL2\<close> and
  \<^verbatim>\<open>numpy.array\<close> are third-party code that \<^verbatim>\<open>vector_store.py\<close> calls and that is
  not part of the repository. The index is its declared dimension and the stored
  float32 vectors in insertion order; the position of a vector is its label. The
  float32 numbers are a type parameter \<open>'f\<close>, the numbers of the Python lists a
  type parameter \<open>'x\<close>, and the distances that the index reports a type parameter
  \<open>'d\<close>. The arithmetic of numpy and FAISS on them enters as two parameters:
  \<^item> \<open>f32 :: 'x \<Rightarrow> 'f\<close>, the conversion of one component by \<^verbatim>\<open>astype('float32')\<close>;
  \<^item> \<open>knn :: 'f list list \<Rightarrow> 'f list \<Rightarrow> nat \<Rightarrow> ('d \<times> int) list\<close>, the
    (distance, label) pairs that the flat index reports for the stored vectors, one
    query and \<open>k\<close>: its float32 distance computation and its ranking.
\<close>

record 'f faiss_index =
  index_d :: nat
  vectors :: "'f list list"

definition IndexFlatL2 :: "nat \<Rightarrow> 'f faiss_index" where
  "IndexFlatL2 n = \<lparr>index_d = n, vectors = []\<rparr>"

definition ntotal :: "'f faiss_index \<Rightarrow> nat" where
  "ntotal ix = length (vectors ix)"

text \<open>
  Modelled from the spec: \<^verbatim>\<open>np.array(rows).astype('float32')\<close> on a non-empty list of
  float lists is a two-dimensional float32 array of shape
  \<open>(length rows, length (hd rows))\<close> when all rows have one length, and raises
  \<^verbatim>\<open>ValueError\<close> on ragged rows.
\<close>

record 'f ndarray =
  ncols :: nat
  rows :: "'f list list"

definition np_array :: "('x \<Rightarrow> 'f) \<Rightarrow> 'x list list \<Rightarrow> error + 'f ndarray" where
  "np_array f32 rs =
     (case rs of
        [] \<Rightarrow> Inr \<lparr>ncols = 0, rows = []\<rparr>
      | r # _ \<Rightarrow>
          if list_all (\<lambda>x. length x = length r) rs
          then Inr \<lparr>ncols = length r, rows = map (map f32) rs\<rparr>
          else Inl ValueError)"

text \<open>
  Modelled from the spec: \<^verbatim>\<open>index.add(x)\<close> asserts that the second axis of \<open>x\<close> is
  the index dimension and appends the rows in the given order.
\<close>

definition index_add :: "'f faiss_index \<Rightarrow> 'f ndarray \<Rightarrow> error + 'f faiss_index" where
  "index_add ix x =
     (if ncols x \<noteq> index_d ix then Inl AssertionError
      else Inr (ix\<lparr>vectors := vectors ix @ rows x\<rparr>))"

text \<open>
  Modelled from the spec: \<^verbatim>\<open>index.search(x, k)\<close> for a one-row query asserts the
  query dimension and \<open>k > 0\<close>, and returns the pairs that the index reports.
\<close>

definition index_search ::
  "('f list list \<Rightarrow> 'f list \<Rightarrow> nat \<Rightarrow> ('d \<times> int) list)
     \<Rightarrow> 'f faiss_index \<Rightarrow> 'f ndarray \<Rightarrow> int \<Rightarrow> error + ('d \<times> int) list" where
  "index_search knn ix x k =
     (if ncols x \<noteq> index_d ix then Inl AssertionError
      else if \<not> 0 < k then Inl AssertionError
      else case rows x of
        [] \<Rightarrow> Inr []
      | q # _ \<Rightarrow> Inr (knn (vectors ix) q (nat k)))"

section \<open>The vector store\<close>

text \<open>
  \<^verbatim>\<open>class VectorStore\<close> of \<^verbatim>\<open>app/rag/vector_store.py\<close>: the declared dimension, the
  index, the chunk texts and the metadata records. A metadata record is opaque to the
  store, so its type is a parameter.
\<close>

record ('f, 'm) vector_store =
  dimension :: nat
  index :: "'f faiss_index"
  chunks :: "string list"
  metadata :: "'m list"

definition VectorStore :: "nat \<Rightarrow> ('f, 'm) vector_store" where
  "VectorStore n = \<lparr>dimension = n, index = IndexFlatL2 n, chunks = [], metadata = []\<rparr>"

text \<open>
  \<^verbatim>\<open>add_documents\<close>: an empty \<open>embeddings\<close> returns at once; otherwise the array
  conversion and \<^verbatim>\<open>index.add\<close> run first (either may raise, before anything is
  changed), then both lists are extended by the arguments as given. The arguments
  \<open>chunks\<close> and \<open>metadata\<close> are written \<open>cs\<close> and \<open>ms\<close>, apart from the fields.
\<close>

definition add_documents ::
  "('x \<Rightarrow> 'f) \<Rightarrow> ('f, 'm) vector_store \<Rightarrow> string list \<Rightarrow> 'x list list \<Rightarrow> 'm list
     \<Rightarrow> ('f, 'm) vector_store outcome" where
  "add_documents f32 s cs embeddings ms =
     (if embeddings = [] then Returned s
      else case np_array f32 embeddings of
        Inl e \<Rightarrow> Raised e s
      | Inr embeddings_np \<Rightarrow>
          (case index_add (index s) embeddings_np of
             Inl e \<Rightarrow> Raised e s
           | Inr ix \<Rightarrow>
               Returned (s\<lparr>index := ix,
                           chunks := chunks s @ cs,
                           metadata := metadata s @ ms\<rparr>)))"

text \<open>
  Python's \<^verbatim>\<open>xs[i]\<close>: a negative index counts from the end of the list, and an index
  outside the list raises \<^verbatim>\<open>IndexError\<close>.
\<close>

definition getitem :: "'a list \<Rightarrow> int \<Rightarrow> error + 'a" where
  "getitem xs i =
     (if 0 \<le> i \<and> i < int (length xs) then Inr (xs ! nat i)
      else if i < 0 \<and> - int (length xs) \<le> i then Inr (xs ! nat (int (length xs) + i))
      else Inl IndexError)"

text \<open>
  The result loop of \<^verbatim>\<open>search\<close>: every (distance, label) pair whose label is below
  \<open>len(self.chunks)\<close> contributes one triple; the others are skipped. \<^verbatim>\<open>float(dist)\<close>
  converts the float32 distance without changing its value.
\<close>

fun search_loop ::
  "('f, 'm) vector_store \<Rightarrow> (string \<times> 'm \<times> 'd) list \<Rightarrow> ('d \<times> int) list
     \<Rightarrow> error + (string \<times> 'm \<times> 'd) list" where
  "search_loop s results [] = Inr results"
| "search_loop s results ((distance, idx) # rest) =
     (if idx < int (length (chunks s)) then
        (case getitem (chunks s) idx of
           Inl e \<Rightarrow> Inl e
         | Inr c \<Rightarrow>
             (case getitem (metadata s) idx of
                Inl e \<Rightarrow> Inl e
              | Inr m \<Rightarrow> search_loop s (results @ [(c, m, distance)]) rest))
      else search_loop s results rest)"

definition search ::
  "('x \<Rightarrow> 'f) \<Rightarrow> ('f list list \<Rightarrow> 'f list \<Rightarrow> nat \<Rightarrow> ('d \<times> int) list)
     \<Rightarrow> ('f, 'm) vector_store \<Rightarrow> 'x list \<Rightarrow> int \<Rightarrow> error + (string \<times> 'm \<times> 'd) list" where
  "search f32 knn s query_embedding k =
     (if length (chunks s) = 0 then Inr []
      else case np_array f32 [query_embedding] of
        Inl e \<Rightarrow> Inl e
      | Inr query_np \<Rightarrow>
          (case index_search knn (index s) query_np (min k (int (length (chunks s)))) of
             Inl e \<Rightarrow> Inl e
           | Inr hits \<Rightarrow> search_loop s [] hits))"

section \<open>Persistence\<close>

text \<open>
  The file system as far as \<^verbatim>\<open>save\<close> and \<^verbatim>\<open>load\<close> use it: the directories that
  exist and the content of each file. A file holds a serialised index, a pickled
  dictionary of chunks and metadata, or anything else (\<open>Unreadable\<close>, which is also
  the content of a file just opened for writing). Serialisation is taken to be
  faithful, and failures of the operating system (permissions, a full disk) are
  not modelled.
\<close>

datatype ('f, 'm) artifact =
  IndexFile "'f faiss_index"
| DataFile "string list" "'m list"
| Unreadable

record ('f, 'm) filesystem =
  dirs :: "string set"
  files :: "string \<rightharpoonup> ('f, 'm) artifact"

definition path_join :: "string \<Rightarrow> string \<Rightarrow> string" where
  "path_join a b =
     (if b \<noteq> [] \<and> hd b = CHR ''/'' then b
      else if a = [] \<or> last a = CHR ''/'' then a @ b
      else a @ ''/'' @ b)"

definition path_exists :: "('f, 'm) filesystem \<Rightarrow> string \<Rightarrow> bool" where
  "path_exists fs p = (p \<in> dirs fs \<or> files fs p \<noteq> None)"

definition makedirs :: "string \<Rightarrow> ('f, 'm) filesystem \<Rightarrow> ('f, 'm) filesystem" where
  "makedirs p fs = fs\<lparr>dirs := insert p (dirs fs)\<rparr>"

definition write_index ::
  "'f faiss_index \<Rightarrow> string \<Rightarrow> ('f, 'm) filesystem \<Rightarrow> ('f, 'm) filesystem" where
  "write_index ix p fs = fs\<lparr>files := (files fs)(p \<mapsto> IndexFile ix)\<rparr>"

definition open_wb :: "string \<Rightarrow> ('f, 'm) filesystem \<Rightarrow> ('f, 'm) filesystem" where
  "open_wb p fs = fs\<lparr>files := (files fs)(p \<mapsto> Unreadable)\<rparr>"

definition pickle_dump ::
  "string list \<Rightarrow> 'm list \<Rightarrow> string \<Rightarrow> ('f, 'm) filesystem \<Rightarrow> ('f, 'm) filesystem" where
  "pickle_dump cs ms p fs = fs\<lparr>files := (files fs)(p \<mapsto> DataFile cs ms)\<rparr>"

definition read_index :: "('f, 'm) filesystem \<Rightarrow> string \<Rightarrow> error + 'f faiss_index" where
  "read_index fs p =
     (case files fs p of Some (IndexFile ix) \<Rightarrow> Inr ix | _ \<Rightarrow> Inl RuntimeError)"

definition pickle_load ::
  "('f, 'm) filesystem \<Rightarrow> string \<Rightarrow> error + (string list \<times> 'm list)" where
  "pickle_load fs p =
     (case files fs p of
        None \<Rightarrow> Inl OSError
      | Some (DataFile cs ms) \<Rightarrow> Inr (cs, ms)
      | Some _ \<Rightarrow> Inl UnpicklingError)"

text \<open>
  \<^verbatim>\<open>save\<close> makes the directory, writes \<^verbatim>\<open>index.faiss\<close>, opens \<^verbatim>\<open>data.pkl\<close> for
  writing and dumps the two lists into it, in this order and at these paths.
  \<open>save_trace\<close> lists the states of the file system that these four effects pass
  through; \<open>save\<close> is the state they end in.
\<close>

definition save_trace ::
  "('f, 'm) vector_store \<Rightarrow> string \<Rightarrow> ('f, 'm) filesystem \<Rightarrow> ('f, 'm) filesystem list" where
  "save_trace s path fs0 =
     (let fs1 = makedirs path fs0;
          fs2 = write_index (index s) (path_join path ''index.faiss'') fs1;
          fs3 = open_wb (path_join path ''data.pkl'') fs2;
          fs4 = pickle_dump (chunks s) (metadata s) (path_join path ''data.pkl'') fs3
      in [fs0, fs1, fs2, fs3, fs4])"

definition save ::
  "('f, 'm) vector_store \<Rightarrow> string \<Rightarrow> ('f, 'm) filesystem \<Rightarrow> ('f, 'm) filesystem" where
  "save s path fs =
     pickle_dump (chunks s) (metadata s) (path_join path ''data.pkl'')
       (open_wb (path_join path ''data.pkl'')
         (write_index (index s) (path_join path ''index.faiss'')
           (makedirs path fs)))"

text \<open>
  \<^verbatim>\<open>load\<close> returns at once when either file is missing. Otherwise it replaces the
  index, then the two lists; when the data file cannot be read the exception leaves
  the store with the new index and the old lists. \<open>self.dimension\<close> is not assigned.
\<close>

definition load ::
  "('f, 'm) vector_store \<Rightarrow> string \<Rightarrow> ('f, 'm) filesystem \<Rightarrow> ('f, 'm) vector_store outcome" where
  "load s path fs =
     (let index_path = path_join path ''index.faiss'';
          data_path = path_join path ''data.pkl''
      in if \<not> path_exists fs index_path \<or> \<not> path_exists fs data_path then Returned s
         else case read_index fs index_path of
           Inl e \<Rightarrow> Raised e s
         | Inr ix \<Rightarrow>
             (case pickle_load fs data_path of
                Inl e \<Rightarrow> Raised e (s\<lparr>index := ix\<rparr>)
              | Inr (cs, ms) \<Rightarrow> Returned (s\<lparr>index := ix, chunks := cs, metadata := ms\<rparr>)))"

section \<open>The retriever's store accessor\<close>

text \<open>
  \<^verbatim>\<open>get_vector_store\<close> of \<^verbatim>\<open>app/rag/retrieve.py\<close>. The module-level variable
  \<^verbatim>\<open>_vector_store\<close> is passed in and returned; \<open>base_dir\<close> stands for the directory
  three levels above the module file. An exception of \<^verbatim>\<open>load\<close> is caught and logged,
  so the store is kept as \<^verbatim>\<open>load\<close> left it.
\<close>

definition get_vector_store ::
  "string \<Rightarrow> ('f, 'm) filesystem \<Rightarrow> string \<Rightarrow> ('f, 'm) vector_store option
     \<Rightarrow> ('f, 'm) vector_store \<times> ('f, 'm) vector_store option" where
  "get_vector_store base_dir fs org_name g =
     (case g of
        Some s \<Rightarrow> (s, Some s)
      | None \<Rightarrow>
          (let s0 = VectorStore 1536;
               store_path =
                 path_join (path_join (path_join base_dir ''data'') org_name) ''vector_store'';
               s1 = (if path_exists fs store_path then state_of (load s0 store_path fs) else s0)
           in (s1, Some s1)))"

section \<open>The alignment invariant and example stores\<close>

text \<open>
  The invariant of the data model: as many chunks as metadata records as vectors
  in the index.
\<close>

definition aligned :: "('f, 'm) vector_store \<Rightarrow> bool" where
  "aligned s =
     (length (chunks s) = length (metadata s) \<and> length (metadata s) = ntotal (index s))"




text \<open>
  Modelled from the spec: the conversion and the flat L2 index on vectors of zeros
  and ones, for the examples. A component is \<open>False\<close> for 0.0 and \<open>True\<close> for
  1.0; both are float32 numbers, so the conversion changes nothing. The squared
  Euclidean distance of two such vectors is the number of places in which they
  differ, a sum of ones that float32 holds exactly, in any order of summation, for
  vectors of fewer than \<open>2^24\<close> components. The index reports the \<open>k\<close> nearest
  stored vectors, nearest first and the earlier inserted first among equals, and
  fills the places for which it has no vector with the label \<open>-1\<close> and the
  distance \<open>FLT_MAX\<close>, the largest finite float32 number.
\<close>

definition f32_bit :: "bool \<Rightarrow> bool" where
  "f32_bit b = b"




text \<open>
  Concrete stores for the examples; a metadata record is a source name with a chunk
  ordinal.
\<close>

definition fs_empty :: "(bool, string \<times> nat) filesystem" where
  "fs_empty = \<lparr>dirs = {}, files = Map.empty\<rparr>"

definition store_a :: "(bool, string \<times> nat) vector_store" where
  "store_a =
     \<lparr>dimension = 3,
      index = \<lparr>index_d = 3, vectors = [[True, False, False], [False, True, False]]\<rparr>,
      chunks = [''A office hours 9-5'', ''B contact support@x.com''],
      metadata = [(''faq.txt'', 0), (''faq.txt'', 1)]\<rparr>"

definition store_b :: "(bool, string \<times> nat) vector_store" where
  "store_b =
     \<lparr>dimension = 3,
      index = \<lparr>index_d = 3, vectors = [[False, False, True]]\<rparr>,
      chunks = [''C returns within 30 days''],
      metadata = [(''policy.txt'', 0)]\<rparr>"

definition fs_two :: "(bool, string \<times> nat) filesystem" where
  "fs_two =
     save store_b ''/srv/data/globex/vector_store''
       (save store_a ''/srv/data/acme/vector_store'' fs_empty)"

text \<open>The store that loads the three-dimensional snapshot of \<open>store_a\<close> into a
  store declared with another dimension.\<close>

definition loaded :: "nat \<Rightarrow> (bool, string \<times> nat) vector_store" where
  "loaded n = state_of (load (VectorStore n) ''kb'' (save store_a ''kb'' fs_empty))"

section \<open>Properties of adding\<close>

lemma np_array_rows:
  assumes "np_array f32 es = Inr x" and "v \<in> set es"
  shows "length v = ncols x" and "rows x = map (map f32) es"
  using assms by (cases es; auto simp: np_array_def list_all_iff split: if_splits)+

lemma np_array_uniform:
  assumes "es \<noteq> []" and "\<forall>v\<in>set es. length v = n"
  shows "np_array f32 es = Inr \<lparr>ncols = n, rows = map (map f32) es\<rparr>"
  using assms by (cases es) (auto simp: np_array_def list_all_iff)

lemma add_documents_rejects:
  assumes "v \<in> set es" and "length v \<noteq> index_d (index s)"
  shows "\<exists>e. add_documents f32 s cs es ms = Raised e s"
proof (cases "np_array f32 es")
  case (Inl e)
  with assms(1) show ?thesis by (auto simp: add_documents_def)
next
  case (Inr x)
  from np_array_rows(1)[OF Inr assms(1)] assms(2) have "ncols x \<noteq> index_d (index s)"
    by simp
  with Inr assms(1) show ?thesis by (auto simp: add_documents_def index_add_def)
qed

lemma add_documents_appends:
  assumes "es \<noteq> []" and "\<forall>v\<in>set es. length v = index_d (index s)"
  shows "add_documents f32 s cs es ms =
     Returned (s\<lparr>index := (index s)\<lparr>vectors := vectors (index s) @ map (map f32) es\<rparr>,
                 chunks := chunks s @ cs, metadata := metadata s @ ms\<rparr>)"
  using assms np_array_uniform[OF assms, of f32]
  by (simp add: add_documents_def index_add_def)

lemma add_documents_Returned:
  assumes "add_documents f32 s cs es ms = Returned s'" and "es \<noteq> []"
  shows "chunks s' = chunks s @ cs" and "metadata s' = metadata s @ ms"
    and "vectors (index s') = vectors (index s) @ map (map f32) es"
proof -
  from assms obtain x where x: "np_array f32 es = Inr x"
    by (cases "np_array f32 es") (auto simp: add_documents_def)
  from assms(2) obtain v where v: "v \<in> set es" by (cases es) auto
  have r: "rows x = map (map f32) es" by (rule np_array_rows(2)[OF x v])
  from assms x r
  have "s' = s\<lparr>index := (index s)\<lparr>vectors := vectors (index s) @ map (map f32) es\<rparr>,
                 chunks := chunks s @ cs, metadata := metadata s @ ms\<rparr>"
    by (auto simp: add_documents_def index_add_def split: if_splits)
  then show "chunks s' = chunks s @ cs" and "metadata s' = metadata s @ ms"
    and "vectors (index s') = vectors (index s) @ map (map f32) es"
    by simp_all
qed

lemma add_documents_cases:
  "raised (add_documents f32 s cs es ms) \<and> state_of (add_documents f32 s cs es ms) = s
   \<or> add_documents f32 s cs es ms = Returned s
   \<or> es \<noteq> [] \<and> (\<exists>s'. add_documents f32 s cs es ms = Returned s')"
  by (auto simp: add_documents_def split: sum.splits)

text \<open>
  The constructor declares the index with the dimension of the store, and
  \<^verbatim>\<open>add_documents\<close> changes neither.
\<close>

lemma index_d_VectorStore:
  "index_d (index (VectorStore n)) = n \<and> dimension (VectorStore n) = n"
  by (simp add: VectorStore_def IndexFlatL2_def)

lemma index_d_add_documents:
  "index_d (index (state_of (add_documents f32 s cs es ms))) = index_d (index s)
   \<and> dimension (state_of (add_documents f32 s cs es ms)) = dimension s"
  by (auto simp: add_documents_def index_add_def split: sum.splits)

section \<open>Properties of persistence\<close>

lemma path_join_distinct: "path_join p ''index.faiss'' \<noteq> path_join p ''data.pkl''"
  by (simp add: path_join_def)

lemma store_eta:
  "\<lparr>dimension = dimension s, index = index s, chunks = chunks s, metadata = metadata s\<rparr>
     = (s :: ('f, 'm) vector_store)"
  by (cases s) simp

lemma load_absent:
  assumes "\<not> path_exists fs (path_join path ''index.faiss'')
           \<or> \<not> path_exists fs (path_join path ''data.pkl'')"
  shows "load s path fs = Returned s"
  using assms by (auto simp add: load_def Let_def)

lemma load_save:
  "load t path (save s path fs) =
     Returned (t\<lparr>index := index s, chunks := chunks s, metadata := metadata s\<rparr>)"
  using path_join_distinct[of path]
  by (simp add: load_def save_def Let_def path_exists_def read_index_def pickle_load_def
      pickle_dump_def open_wb_def write_index_def makedirs_def)

lemma loaded_eq: "loaded n = store_a\<lparr>dimension := n\<rparr>"
  by (simp add: loaded_def load_save VectorStore_def store_a_def)

text \<open>
  C10. Whatever the store and whatever the chunks and metadata arguments,
  \<^verbatim>\<open>add_documents\<close> with an empty embeddings sequence returns without raising and
  leaves the whole store (chunks, metadata, index, dimension) as it was: non-empty
  chunks and metadata are dropped, neither appended nor rejected.
\<close>

theorem add_documents_no_embeddings:
  "add_documents f32 s cs [] ms = Returned s"
  by (simp add: add_documents_def)

text \<open>
  C7, as the code has it. The dimension that \<^verbatim>\<open>add_documents\<close> holds a vector
  against is the dimension of the store's index, not the attribute \<open>dimension\<close> that
  the constructor was given. When some vector of the embeddings argument has a
  length other than the index dimension, the call raises and the store is exactly
  as before: nothing is appended, truncated or padded. The two dimensions are equal
  for a store made by the constructor, and \<^verbatim>\<open>add_documents\<close> keeps them equal;
  \<^verbatim>\<open>load\<close> takes the index, with its dimension, from the snapshot and leaves the
  declared dimension alone.
\<close>

theorem add_documents_wrong_index_dimension:
  "(v \<in> set embeddings \<and> length v \<noteq> index_d (index s) \<longrightarrow>
      (\<exists>e. add_documents f32 s cs embeddings ms = Raised e s))
   \<and> index_d (index (VectorStore n :: ('f, 'm) vector_store))
       = dimension (VectorStore n :: ('f, 'm) vector_store)
   \<and> (index_d (index s) = dimension s \<longrightarrow>
        index_d (index (state_of (add_documents f32 s cs embeddings ms)))
          = dimension (state_of (add_documents f32 s cs embeddings ms)))
   \<and> index_d (index (state_of (load t path (save s path fs)))) = index_d (index s)
   \<and> dimension (state_of (load t path (save s path fs))) = dimension t"
  using add_documents_rejects[of v embeddings s f32 cs ms]
    index_d_add_documents[of f32 s cs embeddings ms]
  by (simp add: load_save VectorStore_def IndexFlatL2_def)

theorem add_documents_wrong_index_dimension_witness:
  "[True, False] \<in> set [[True, False]]
   \<and> length [True, False] \<noteq> index_d (index store_a)
   \<and> index_d (index store_a) = dimension store_a
   \<and> (\<exists>e. add_documents f32_bit store_a [''D''] [[True, False]] [(''faq.txt'', 2)]
            = Raised e store_a)
   \<and> index_d (index (state_of
        (add_documents f32_bit store_a [''D''] [[True, False]] [(''faq.txt'', 2)])))
       = dimension (state_of
        (add_documents f32_bit store_a [''D''] [[True, False]] [(''faq.txt'', 2)]))"
proof -
  have m: "[True, False] \<in> set [[True, False]]" by simp
  have d: "length [True, False] \<noteq> index_d (index store_a)" by (simp add: store_a_def)
  have e: "index_d (index store_a) = dimension store_a" by (simp add: store_a_def)
  from m d e add_documents_wrong_index_dimension[where v = "[True, False]"
      and embeddings = "[[True, False]]" and s = store_a and ?f32.0 = f32_bit and cs = "[''D'']"
      and ms = "[(''faq.txt'', 2)]"]
  show ?thesis by blast
qed

text \<open>
  The declared dimension does not decide: a store declared with 1536 dimensions
  that has loaded a snapshot of three-dimensional vectors accepts a vector of
  length 3, which differs from its declared dimension, and appends it.
\<close>

theorem add_documents_after_load_accepted:
  "dimension (loaded 1536) = 1536
   \<and> length [False, False, True] \<noteq> dimension (loaded 1536)
   \<and> add_documents f32_bit (loaded 1536) [''D''] [[False, False, True]] [(''faq.txt'', 2)]
       = Returned
           \<lparr>dimension = 1536,
            index = \<lparr>index_d = 3,
                     vectors = [[True, False, False], [False, True, False], [False, False, True]]\<rparr>,
            chunks = [''A office hours 9-5'', ''B contact support@x.com'', ''D''],
            metadata = [(''faq.txt'', 0), (''faq.txt'', 1), (''faq.txt'', 2)]\<rparr>"
  by (simp add: loaded_eq store_a_def add_documents_def np_array_def index_add_def f32_bit_def)

text \<open>
  C2, as the code has it. \<^verbatim>\<open>add_documents\<close> compares no lengths. A call whose three
  sequences differ in length returns with the store unchanged when embeddings is
  empty; it raises, with the store unchanged, when some vector has another length
  than the index dimension; and otherwise it returns having appended every chunk,
  every vector and every metadata record it was given, nothing truncated or padded.
\<close>

theorem add_documents_unchecked_lengths:
  assumes "\<not> (length cs = length embeddings \<and> length ms = length embeddings)"
  shows "(embeddings = [] \<longrightarrow> add_documents f32 s cs embeddings ms = Returned s)
    \<and> ((\<exists>v\<in>set embeddings. length v \<noteq> index_d (index s)) \<longrightarrow>
          (\<exists>e. add_documents f32 s cs embeddings ms = Raised e s))
    \<and> (embeddings \<noteq> [] \<and> (\<forall>v\<in>set embeddings. length v = index_d (index s)) \<longrightarrow>
          add_documents f32 s cs embeddings ms =
            Returned (s\<lparr>index := (index s)\<lparr>vectors := vectors (index s)
                                                @ map (map f32) embeddings\<rparr>,
                        chunks := chunks s @ cs, metadata := metadata s @ ms\<rparr>))"
  using add_documents_rejects[of _ embeddings s f32 cs ms]
    add_documents_appends[of embeddings s f32 cs ms]
  by (auto simp: add_documents_def)

theorem add_documents_unchecked_lengths_witness:
  "length [''D'', ''E''] \<noteq> length [[False, False, True]]
   \<and> add_documents f32_bit store_a [''D'', ''E''] [[False, False, True]] [(''faq.txt'', 2)] =
       Returned (store_a\<lparr>index := (index store_a)\<lparr>vectors := vectors (index store_a)
                                                    @ [[False, False, True]]\<rparr>,
                   chunks := chunks store_a @ [''D'', ''E''],
                   metadata := metadata store_a @ [(''faq.txt'', 2)]\<rparr>)"
proof -
  have h: "\<not> (length [''D'', ''E''] = length [[False, False, True]]
      \<and> length [(''faq.txt'', 2 :: nat)] = length [[False, False, True]])"
    by simp
  have d: "\<forall>v\<in>set [[False, False, True]]. length v = index_d (index store_a)"
    by (simp add: store_a_def)
  from add_documents_unchecked_lengths[OF h, of f32_bit store_a] d show ?thesis
    by (simp add: f32_bit_def)
qed

theorem add_documents_mismatch_accepted:
  "add_documents f32_bit (VectorStore 1) [''a'', ''b''] [[True]] [(''f'', 0 :: nat)] =
     Returned \<lparr>dimension = 1, index = \<lparr>index_d = 1, vectors = [[True]]\<rparr>,
               chunks = [''a'', ''b''], metadata = [(''f'', 0)]\<rparr>"
  by (simp add: add_documents_def VectorStore_def IndexFlatL2_def np_array_def index_add_def
      f32_bit_def)

text \<open>
  C6. When the index file or the data file is missing at the path, \<^verbatim>\<open>load\<close> returns
  without raising and the store (chunks, metadata, index, dimension) is exactly as
  it was before the call, whatever it held.
\<close>

theorem load_missing_artifact:
  assumes "\<not> path_exists fs (path_join path ''index.faiss'')
           \<or> \<not> path_exists fs (path_join path ''data.pkl'')"
  shows "load s path fs = Returned s"
  using assms by (rule load_absent)

theorem load_missing_artifact_witness:
  "path_exists (write_index (index store_b) (path_join ''kb'' ''index.faiss'') fs_empty)
       (path_join ''kb'' ''index.faiss'')
   \<and> \<not> path_exists (write_index (index store_b) (path_join ''kb'' ''index.faiss'') fs_empty)
       (path_join ''kb'' ''data.pkl'')
   \<and> load store_a ''kb'' (write_index (index store_b) (path_join ''kb'' ''index.faiss'') fs_empty)
       = Returned store_a"
proof -
  let ?fs = "write_index (index store_b) (path_join ''kb'' ''index.faiss'') fs_empty"
  have i: "path_exists ?fs (path_join ''kb'' ''index.faiss'')"
    by (simp add: path_exists_def write_index_def)
  have d: "\<not> path_exists ?fs (path_join ''kb'' ''data.pkl'')"
    by (simp add: path_exists_def write_index_def fs_empty_def path_join_def)
  from d have "\<not> path_exists ?fs (path_join ''kb'' ''index.faiss'')
      \<or> \<not> path_exists ?fs (path_join ''kb'' ''data.pkl'')" ..
  from i d load_missing_artifact[OF this, of store_a] show ?thesis by blast
qed

text \<open>
  C3. Saving a store to a path and loading that path into a fresh store of the same
  dimension returns a store with the same ordered chunk list, the same ordered
  metadata list and the same index; it is the saved store itself, so \<^verbatim>\<open>search\<close>
  gives on it, for every query vector and every \<open>k\<close>, what it gives on the original.
\<close>

theorem save_load_roundtrip:
  "\<exists>t. load (VectorStore (dimension s)) path (save s path fs) = Returned t
     \<and> chunks t = chunks s \<and> metadata t = metadata s \<and> index t = index s
     \<and> t = s \<and> search f32 knn t q k = search f32 knn s q k"
  by (simp add: load_save VectorStore_def store_eta)

theorem save_load_roundtrip_witness:
  "load (VectorStore (dimension store_a)) ''kb'' (save store_a ''kb'' fs_empty) = Returned store_a"
  using save_load_roundtrip[of store_a "''kb''" fs_empty] by blast

section \<open>The alignment invariant\<close>

lemma aligned_VectorStore: "aligned (VectorStore n)"
  by (simp add: aligned_def VectorStore_def IndexFlatL2_def ntotal_def)

lemma aligned_add_documents:
  assumes "aligned s" and "length cs = length es" and "length ms = length es"
  shows "aligned (state_of (add_documents f32 s cs es ms))"
proof -
  consider (same) "state_of (add_documents f32 s cs es ms) = s"
    | (app) s' where "es \<noteq> []" "add_documents f32 s cs es ms = Returned s'"
    using add_documents_cases[of f32 s cs es ms] by auto
  then show ?thesis
  proof cases
    case same
    with assms(1) show ?thesis by simp
  next
    case app
    from add_documents_Returned[OF app(2) app(1)] assms app(2) show ?thesis
      by (simp add: aligned_def ntotal_def)
  qed
qed

lemma aligned_load_save:
  assumes "aligned s"
  shows "aligned (state_of (load t path (save s path fs)))"
  using assms by (simp add: load_save aligned_def)

text \<open>
  C1, as the code has it. The invariant \<open>len(chunks) = len(metadata) = index.count\<close>
  holds for a fresh store. \<^verbatim>\<open>add_documents\<close> keeps it when its three arguments have
  one length (also when the call raises or embeddings is empty), and a call that
  returns appends the chunks, the metadata and the vectors (converted to float32) in
  the order given, so that equal positions belong together. \<^verbatim>\<open>load\<close> keeps it when
  an artifact is missing and when the snapshot was saved from an aligned store.
  \<^verbatim>\<open>search\<close> and \<^verbatim>\<open>save\<close> assign no attribute of the store.
\<close>

theorem alignment_preserved:
  "aligned (VectorStore n :: ('f, 'm) vector_store)
   \<and> (aligned s \<and> length cs = length embeddings \<and> length ms = length embeddings
        \<longrightarrow> aligned (state_of (add_documents f32 s cs embeddings ms)))
   \<and> (add_documents f32 s cs embeddings ms = Returned s' \<and> embeddings \<noteq> []
        \<longrightarrow> chunks s' = chunks s @ cs \<and> metadata s' = metadata s @ ms
            \<and> vectors (index s') = vectors (index s) @ map (map f32) embeddings)
   \<and> (aligned s \<and> (\<not> path_exists fs (path_join path ''index.faiss'')
                     \<or> \<not> path_exists fs (path_join path ''data.pkl''))
        \<longrightarrow> aligned (state_of (load s path fs)))
   \<and> (aligned s \<longrightarrow> aligned (state_of (load t path (save s path fs))))"
  using aligned_VectorStore aligned_add_documents[of s cs embeddings ms f32]
    add_documents_Returned[of f32 s cs embeddings ms s'] load_absent[of fs path s]
    aligned_load_save[of s t path fs]
  by auto

theorem alignment_preserved_witness:
  "aligned store_a
   \<and> length [''C returns within 30 days''] = length [[False, False, True]]
   \<and> length [(''policy.txt'', 0 :: nat)] = length [[False, False, True]]
   \<and> aligned (state_of (add_documents f32_bit store_a [''C returns within 30 days'']
          [[False, False, True]] [(''policy.txt'', 0)]))
   \<and> aligned (state_of (load store_b ''kb'' (save store_a ''kb'' fs_empty)))"
proof -
  have a: "aligned store_a" by (simp add: aligned_def store_a_def ntotal_def)
  have l: "length [''C returns within 30 days''] = length [[False, False, True]]"
    "length [(''policy.txt'', 0 :: nat)] = length [[False, False, True]]"
    by simp_all
  from a l alignment_preserved[where s = store_a and cs = "[''C returns within 30 days'']"
      and embeddings = "[[False, False, True]]" and ms = "[(''policy.txt'', 0)]" and t = store_b
      and path = "''kb''" and fs = fs_empty and ?f32.0 = f32_bit]
  show ?thesis by blast
qed

text \<open>
  The invariant does not hold at all times: a call with two chunks and one vector
  is accepted and leaves two chunks beside one vector.
\<close>

theorem add_documents_breaks_alignment:
  "aligned (VectorStore 1 :: (bool, string \<times> nat) vector_store)
   \<and> \<not> aligned (state_of
         (add_documents f32_bit (VectorStore 1) [''a'', ''b''] [[True]] [(''f'', 0 :: nat)]))"
  by (simp add: aligned_def add_documents_def VectorStore_def IndexFlatL2_def np_array_def
      index_add_def ntotal_def)

section \<open>Properties of search\<close>









section \<open>Saving in place\<close>

lemma save_trace_last: "last (save_trace s path fs) = save s path fs"
  by (simp add: save_trace_def save_def Let_def)

text \<open>
  C5, as the code has it. \<^verbatim>\<open>save\<close> writes the index artifact and then the data
  artifact in place: no state it passes through differs from the initial one at any
  path other than the two final paths, so there is no temporary path and no rename.
  It starts from the old snapshot and ends in the new complete one. In between, the
  new index artifact stands beside the old data artifact, then beside a data file
  that is open for writing.
\<close>

theorem save_in_place:
  "length (save_trace s path fs) = 5
   \<and> hd (save_trace s path fs) = fs
   \<and> last (save_trace s path fs) = save s path fs
   \<and> (\<forall>fs' \<in> set (save_trace s path fs). \<forall>p.
        p \<noteq> path_join path ''index.faiss'' \<and> p \<noteq> path_join path ''data.pkl''
          \<longrightarrow> files fs' p = files fs p)
   \<and> files (save_trace s path fs ! 2) (path_join path ''index.faiss'') = Some (IndexFile (index s))
   \<and> files (save_trace s path fs ! 2) (path_join path ''data.pkl'') = files fs (path_join path ''data.pkl'')
   \<and> files (save_trace s path fs ! 3) (path_join path ''index.faiss'') = Some (IndexFile (index s))
   \<and> files (save_trace s path fs ! 3) (path_join path ''data.pkl'') = Some Unreadable
   \<and> files (save s path fs) (path_join path ''index.faiss'') = Some (IndexFile (index s))
   \<and> files (save s path fs) (path_join path ''data.pkl'') = Some (DataFile (chunks s) (metadata s))"
  using path_join_distinct[of path]
  by (simp add: save_trace_def save_def Let_def pickle_dump_def open_wb_def write_index_def
      makedirs_def)

theorem save_in_place_witness:
  "files (save_trace store_b ''kb'' (save store_a ''kb'' fs_empty) ! 2)
       (path_join ''kb'' ''index.faiss'') = Some (IndexFile (index store_b))
   \<and> files (save_trace store_b ''kb'' (save store_a ''kb'' fs_empty) ! 2)
       (path_join ''kb'' ''data.pkl'') = Some (DataFile (chunks store_a) (metadata store_a))"
  using save_in_place[of store_b "''kb''" "save store_a ''kb'' fs_empty"]
    save_in_place[of store_a "''kb''" fs_empty]
  by simp

text \<open>
  A reader that loads between the two writes gets the index of the new store with
  the chunks and metadata of the old one, which is neither snapshot.
\<close>

theorem save_partial_snapshot:
  "load (VectorStore 3) ''kb'' (save_trace store_b ''kb'' (save store_a ''kb'' fs_empty) ! 2)
     = Returned \<lparr>dimension = 3, index = index store_b,
                 chunks = chunks store_a, metadata = metadata store_a\<rparr>
   \<and> load (VectorStore 3) ''kb'' (save store_a ''kb'' fs_empty) = Returned store_a
   \<and> load (VectorStore 3) ''kb'' (save store_b ''kb'' (save store_a ''kb'' fs_empty)) = Returned store_b
   \<and> \<lparr>dimension = 3, index = index store_b, chunks = chunks store_a, metadata = metadata store_a\<rparr> \<noteq> store_a
   \<and> \<lparr>dimension = 3, index = index store_b, chunks = chunks store_a, metadata = metadata store_a\<rparr> \<noteq> store_b"
  by (simp add: save_trace_def save_def Let_def pickle_dump_def open_wb_def write_index_def
      makedirs_def load_def path_exists_def read_index_def pickle_load_def path_join_def
      VectorStore_def store_a_def store_b_def)

section \<open>Properties of the store accessor\<close>

lemma get_vector_store_cached: "get_vector_store base fs org (Some s) = (s, Some s)"
  by (simp add: get_vector_store_def)

text \<open>
  C9 fails on the code. With a snapshot on disk for each of two organisations, the
  first call for \<open>acme\<close> loads the store of \<open>acme\<close>, and a first call for \<open>globex\<close>
  in a fresh process would load the store of \<open>globex\<close>; but the call for \<open>globex\<close>
  that follows the call for \<open>acme\<close> returns the store of \<open>acme\<close>, whose chunks are
  not those of \<open>globex\<close>.
\<close>

theorem get_vector_store_ignores_org:
  "get_vector_store ''/srv'' fs_two ''acme'' None
     = (store_a\<lparr>dimension := 1536\<rparr>, Some (store_a\<lparr>dimension := 1536\<rparr>))
   \<and> get_vector_store ''/srv'' fs_two ''globex'' None
     = (store_b\<lparr>dimension := 1536\<rparr>, Some (store_b\<lparr>dimension := 1536\<rparr>))
   \<and> get_vector_store ''/srv'' fs_two ''globex''
       (snd (get_vector_store ''/srv'' fs_two ''acme'' None))
     = (store_a\<lparr>dimension := 1536\<rparr>, Some (store_a\<lparr>dimension := 1536\<rparr>))
   \<and> chunks (store_a\<lparr>dimension := 1536\<rparr>) \<noteq> chunks (store_b\<lparr>dimension := 1536\<rparr>)"
  by (simp add: get_vector_store_def fs_two_def save_def Let_def pickle_dump_def open_wb_def
      write_index_def makedirs_def load_def path_exists_def read_index_def pickle_load_def
      path_join_def VectorStore_def store_a_def store_b_def fs_empty_def)

section \<open>Properties of the float arithmetic\<close>

lemma ilog2_bounds:
  assumes "x \<noteq> 0"
  shows "2 powi (ilog2 x) \<le> \<bar>x\<bar>" and "\<bar>x\<bar> < 2 powi (ilog2 x + 1)"
proof -
  have "2 powi (ilog2 x) \<le> \<bar>x\<bar> \<and> \<bar>x\<bar> < 2 powi (ilog2 x + 1)"
  proof (cases "1 \<le> \<bar>x\<bar>")
    case True
    let ?m = "nat \<lfloor>\<bar>x\<bar>\<rfloor>"
    let ?f = "floorlog 2 ?m"
    from True have m: "0 < ?m" by simp
    from floorlog_bounds[OF m, of 2] have b: "2 ^ (?f - 1) \<le> ?m" "?m < 2 ^ ?f" by simp_all
    from m have "?f \<noteq> 0" by (simp add: floorlog_eq_zero_iff)
    then have f: "0 < ?f" by simp
    have e: "ilog2 x = int (?f - 1)" using True f by (simp add: ilog2_def)
    have mx: "real ?m \<le> \<bar>x\<bar>" "\<bar>x\<bar> < real ?m + 1" by linarith+
    from b(1) have "(2::real) ^ (?f - 1) \<le> real ?m" by (metis of_nat_le_iff of_nat_numeral of_nat_power)
    with mx have lo: "(2::real) ^ (?f - 1) \<le> \<bar>x\<bar>" by linarith
    from Suc_leI[OF b(2)] have "real (Suc ?m) \<le> real (2 ^ ?f)" by (simp only: of_nat_le_iff)
    then have "real ?m + 1 \<le> 2 ^ ?f" by simp
    with mx have hi: "\<bar>x\<bar> < (2::real) ^ ?f" by linarith
    have e2: "ilog2 x + 1 = int ?f" using e f by simp
    have "2 powi (ilog2 x) = (2::real) ^ (?f - 1)" by (simp only: e power_int_of_nat)
    moreover have "2 powi (ilog2 x + 1) = (2::real) ^ ?f" by (simp only: e2 power_int_of_nat)
    ultimately show ?thesis using lo hi by simp
  next
    case False
    let ?c = "\<lceil>1 / \<bar>x\<bar>\<rceil>"
    let ?m = "nat (?c - 1)"
    let ?f = "floorlog 2 ?m"
    from False assms have x: "0 < \<bar>x\<bar>" "\<bar>x\<bar> < 1" by simp_all
    then have inv: "1 < 1 / \<bar>x\<bar>" by simp
    then have c: "2 \<le> ?c" by linarith
    then have m: "0 < ?m" by simp
    from floorlog_bounds[OF m, of 2] have b: "2 ^ (?f - 1) \<le> ?m" "?m < 2 ^ ?f" by simp_all
    from m have "?f \<noteq> 0" by (simp add: floorlog_eq_zero_iff)
    then have f: "0 < ?f" by simp
    have e: "ilog2 x = - int ?f" using False by (simp add: ilog2_def)
    from c have "0 \<le> ?c - 1" by linarith
    then have "real ?m = of_int (?c - 1)" by (rule of_nat_nat)
    then have cm: "real ?m = of_int ?c - 1" by (simp only: of_int_diff of_int_1)
    have cx: "of_int ?c - 1 < 1 / \<bar>x\<bar>" "1 / \<bar>x\<bar> \<le> of_int ?c" by linarith+
    from b(1) have "(2::real) ^ (?f - 1) \<le> real ?m" by (metis of_nat_le_iff of_nat_numeral of_nat_power)
    with cm cx have lo: "(2::real) ^ (?f - 1) < 1 / \<bar>x\<bar>" by linarith
    from Suc_leI[OF b(2)] have "real (Suc ?m) \<le> real (2 ^ ?f)" by (simp only: of_nat_le_iff)
    then have "real ?m + 1 \<le> 2 ^ ?f" by simp
    with cm cx have hi: "1 / \<bar>x\<bar> \<le> (2::real) ^ ?f" by linarith
    from hi x have h1: "1 / 2 ^ ?f \<le> \<bar>x\<bar>"
      by (simp add: field_simps)
    from lo x have h2: "\<bar>x\<bar> < 1 / 2 ^ (?f - 1)"
      by (simp add: field_simps)
    have p1: "(2::real) powi (- int ?f) = 1 / 2 ^ ?f"
      by (simp only: power_int_minus_divide power_int_of_nat)
    have "- int ?f + 1 = - int (?f - 1)" using f by simp
    then have "(2::real) powi (- int ?f + 1) = 2 powi (- int (?f - 1))" by (rule arg_cong)
    also have "\<dots> = 1 / 2 powi (int (?f - 1))" by (rule power_int_minus_divide)
    also have "\<dots> = 1 / 2 ^ (?f - 1)" by (simp only: power_int_of_nat)
    finally have p2: "(2::real) powi (- int ?f + 1) = 1 / 2 ^ (?f - 1)" .
    from h1 h2 p1 p2 e show ?thesis by simp
  qed
  then show "2 powi (ilog2 x) \<le> \<bar>x\<bar>" and "\<bar>x\<bar> < 2 powi (ilog2 x + 1)" by simp_all
qed

lemma ilog2_eqI:
  assumes "2 powi e \<le> \<bar>x\<bar>" and "\<bar>x\<bar> < 2 powi (e + 1)"
  shows "ilog2 x = e"
proof -
  have "0 < (2::real) powi e" by (rule zero_less_power_int) simp
  with assms(1) have "0 < \<bar>x\<bar>" by linarith
  then have x: "x \<noteq> 0" by simp
  note b = ilog2_bounds[OF x]
  have lt: "i < j" if "2 powi i < (2::real) powi j" for i j :: int
  proof (rule ccontr)
    assume "\<not> i < j"
    then have "j \<le> i" by simp
    then have "(2::real) powi j \<le> 2 powi i" by (rule power_int_increasing) simp
    with that show False by simp
  qed
  have "2 powi e < (2::real) powi (ilog2 x + 1)" using assms(1) b(2) by linarith
  then have "e < ilog2 x + 1" by (rule lt)
  moreover have "2 powi (ilog2 x) < (2::real) powi (e + 1)" using assms(2) b(1) by linarith
  then have "ilog2 x < e + 1" by (rule lt)
  ultimately show ?thesis by simp
qed

lemma powi_less_imp_less:
  assumes "2 powi i < (2::real) powi j"
  shows "i < j"
proof (rule ccontr)
  assume "\<not> i < j"
  then have "j \<le> i" by simp
  then have "(2::real) powi j \<le> 2 powi i" by (rule power_int_increasing) simp
  with assms show False by simp
qed

lemma rne_error: "\<bar>of_int (rne y) - y\<bar> \<le> 1 / 2"
proof -
  have "of_int \<lfloor>y\<rfloor> \<le> y" "y < of_int \<lfloor>y\<rfloor> + 1" by linarith+
  then show ?thesis by (auto simp: rne_def)
qed

lemma rne_ge:
  assumes "of_int m \<le> y"
  shows "m \<le> rne y"
proof -
  from assms have "m \<le> \<lfloor>y\<rfloor>" by (simp add: le_floor_iff)
  moreover have "\<lfloor>y\<rfloor> \<le> rne y" by (simp add: rne_def)
  ultimately show ?thesis by simp
qed

lemma ulp_pos: "0 < ulp x"
  unfolding ulp_def by (rule zero_less_power_int) simp

lemma float_round_error:
  "\<bar>float_round x - x\<bar> \<le> ulp x / 2"
proof (cases "x = 0")
  case True
  with ulp_pos[of x] show ?thesis by (simp add: float_round_def)
next
  case False
  let ?u = "ulp x"
  let ?r = "real_of_int (rne (x / ?u))"
  have u: "0 < ?u" by (rule ulp_pos)
  have "\<bar>?r - x / ?u\<bar> \<le> 1 / 2" by (rule rne_error)
  then have "\<bar>?r - x / ?u\<bar> * ?u \<le> 1 / 2 * ?u"
    using u by (intro mult_right_mono) simp_all
  moreover have "\<bar>?r - x / ?u\<bar> * ?u = \<bar>(?r - x / ?u) * ?u\<bar>"
    using u by (simp add: abs_mult)
  moreover have "(?r - x / ?u) * ?u = ?r * ?u - x"
    using u by (simp add: field_simps)
  ultimately have "\<bar>?r * ?u - x\<bar> \<le> ?u / 2" by simp
  with False show ?thesis by (simp add: float_round_def)
qed

lemma grid_round_lower:
  assumes "0 < u" and "of_int c * u \<le> x"
  shows "of_int c * u \<le> of_int (rne (x / u)) * u"
proof -
  from assms have "of_int c \<le> x / u" by (simp add: pos_le_divide_eq)
  then have "c \<le> rne (x / u)" by (rule rne_ge)
  then have "real_of_int c \<le> of_int (rne (x / u))" by simp
  with assms(1) show ?thesis by (intro mult_right_mono) simp_all
qed

lemma powi_split: "(2::real) powi e = of_int (2 ^ p) * 2 powi (e - int p)"
proof -
  have "(2::real) powi e = 2 powi (int p + (e - int p))" by simp
  also have "\<dots> = 2 powi (int p) * 2 powi (e - int p)"
    by (rule power_int_add) simp
  also have "(2::real) powi (int p) = of_int (2 ^ p)" by simp
  finally show ?thesis .
qed

lemma float_round_ge_1:
  assumes "1 \<le> x"
  shows "1 \<le> float_round x"
proof -
  from assms have x0: "x \<noteq> 0" and ax: "\<bar>x\<bar> = x" by simp_all
  let ?e = "ilog2 x"
  from ilog2_bounds[OF x0] ax have b: "2 powi ?e \<le> x" "x < 2 powi (?e + 1)" by simp_all
  from assms b(2) have "2 powi 0 < (2::real) powi (?e + 1)" by simp
  then have "0 < ?e + 1" by (rule powi_less_imp_less)
  then have e: "0 \<le> ?e" by simp
  then have "max ?e (- 1022) - 52 = ?e - int 52" by simp
  then have u: "ulp x = 2 powi (?e - int 52)" unfolding ulp_def by (rule arg_cong)
  have up: "0 < ulp x" by (rule ulp_pos)
  have "of_int (2 ^ 52) * ulp x = 2 powi ?e" unfolding u by (rule powi_split[symmetric])
  with b(1) have "of_int (2 ^ 52) * ulp x \<le> x" by simp
  with up have "of_int (2 ^ 52) * ulp x \<le> of_int (rne (x / ulp x)) * ulp x"
    by (rule grid_round_lower)
  moreover note \<open>of_int (2 ^ 52) * ulp x = 2 powi ?e\<close>
  moreover have "(1::real) \<le> 2 powi ?e" using e by (intro one_le_power_int) simp_all
  ultimately have "1 \<le> of_int (rne (x / ulp x)) * ulp x" by linarith
  with x0 show ?thesis by (simp add: float_round_def)
qed

lemma overflow_facts:
  "(0::real) < DBL_OVERFLOW"
  "(2::real) ^ 1023 + 2 ^ 969 < DBL_OVERFLOW"
  "DBL_OVERFLOW < (2::real) ^ 1024"
  "DBL_OVERFLOW / 2 ^ 971 = (2::real) ^ 53 - 1 / 2"
  "((2::real) ^ 53 - 1) * 2 ^ 971 < DBL_OVERFLOW"
  "(2::real) ^ 63 + 1 < DBL_OVERFLOW"
  by (simp_all add: DBL_OVERFLOW_def)

lemma float_round_no_overflow:
  assumes "\<bar>x\<bar> < DBL_OVERFLOW"
  shows "\<bar>float_round x\<bar> < DBL_OVERFLOW"
proof (cases "x = 0")
  case True
  with overflow_facts(1) show ?thesis by (simp add: float_round_def)
next
  case x0: False
  let ?e = "ilog2 x"
  note b = ilog2_bounds[OF x0]
  show ?thesis
  proof (cases "\<bar>x\<bar> < 2 ^ 1023")
    case True
    with b(1) have "2 powi ?e < (2::real) powi 1023" by simp
    then have "?e < 1023" by (rule powi_less_imp_less)
    then have "max ?e (- 1022) - 52 \<le> 970" by simp
    then have "(2::real) powi (max ?e (- 1022) - 52) \<le> 2 powi 970"
      by (rule power_int_increasing) simp
    then have "ulp x \<le> 2 ^ 970" by (simp add: ulp_def)
    then have "ulp x / 2 \<le> 2 ^ 969" by simp
    with float_round_error[of x] have "\<bar>float_round x - x\<bar> \<le> 2 ^ 969" by linarith
    then have "\<bar>float_round x\<bar> \<le> \<bar>x\<bar> + 2 ^ 969" by linarith
    with True overflow_facts(2) show ?thesis by linarith
  next
    case False
    then have lo: "2 powi 1023 \<le> \<bar>x\<bar>" by simp
    from assms overflow_facts(3) have hi: "\<bar>x\<bar> < 2 powi (1023 + 1)" by simp
    from lo hi have e: "?e = 1023" by (rule ilog2_eqI)
    have u: "ulp x = 2 ^ 971" by (simp add: ulp_def e)
    let ?y = "x / 2 ^ 971"
    have "\<bar>?y\<bar> = \<bar>x\<bar> / 2 ^ 971" by simp
    also have "\<dots> < DBL_OVERFLOW / 2 ^ 971" using assms by (simp add: divide_strict_right_mono)
    finally have y: "\<bar>?y\<bar> < 2 ^ 53 - 1 / 2" by (simp only: overflow_facts(4))
    from rne_error[of ?y] have "\<bar>real_of_int (rne ?y)\<bar> \<le> \<bar>?y\<bar> + 1 / 2" by linarith
    with y have "\<bar>real_of_int (rne ?y)\<bar> < 2 ^ 53" by linarith
    then have "real_of_int \<bar>rne ?y\<bar> < real_of_int (2 ^ 53)" by simp
    then have "\<bar>rne ?y\<bar> < 2 ^ 53" by (simp only: of_int_less_iff)
    then have "\<bar>rne ?y\<bar> \<le> 2 ^ 53 - 1" by simp
    then have "real_of_int \<bar>rne ?y\<bar> \<le> real_of_int (2 ^ 53 - 1)" by (simp only: of_int_le_iff)
    then have r: "\<bar>real_of_int (rne ?y)\<bar> \<le> 2 ^ 53 - 1" by simp
    have "\<bar>float_round x\<bar> = \<bar>real_of_int (rne ?y)\<bar> * 2 ^ 971"
      using x0 by (simp add: float_round_def u abs_mult)
    also have "\<dots> \<le> (2 ^ 53 - 1) * 2 ^ 971"
      using r by (intro mult_right_mono) simp_all
    finally show ?thesis using overflow_facts(5) by linarith
  qed
qed

lemma overlap_count_returns:
  assumes n: "0 < n" and ln: "int n \<le> current_length"
    and l: "real_of_int current_length < DBL_OVERFLOW"
    and o: "\<bar>real_of_int overlap\<bar> < DBL_OVERFLOW"
  shows "\<exists>m. overlap_count overlap current_length n = Inr m"
proof -
  let ?q = "real_of_int current_length / real_of_int (int n)"
  from n ln have q1: "1 \<le> ?q" by (simp add: pos_le_divide_eq)
  from n ln have "?q \<le> real_of_int current_length"
    by (simp add: pos_divide_le_eq mult_le_cancel_left1)
  with q1 l have q2: "\<bar>?q\<bar> < DBL_OVERFLOW" by simp
  from n q2 have mean: "int_truediv current_length (int n) = Inr (float_round ?q)"
    by (simp add: int_truediv_def)
  from q1 have m1: "1 \<le> float_round ?q" by (rule float_round_ge_1)
  from o have ov: "int_to_float overlap = Inr (float_round (of_int overlap))"
    by (simp add: int_to_float_def)
  from o have a: "\<bar>float_round (of_int overlap)\<bar> < DBL_OVERFLOW"
    by (rule float_round_no_overflow)
  let ?a = "float_round (real_of_int overlap)"
  let ?b = "float_round ?q"
  from m1 have "\<bar>?a / ?b\<bar> \<le> \<bar>?a\<bar>"
    by (simp add: pos_divide_le_eq mult_le_cancel_left1)
  with a have "\<bar>?a / ?b\<bar> < DBL_OVERFLOW" by simp
  with m1 have "float_truediv ?a ?b = Inr (Fin (float_round (?a / ?b)))"
    by (simp add: float_truediv_def)
  with mean ov show ?thesis by (simp add: overlap_count_def)
qed

lemma float_round_eval:
  assumes "2 powi e \<le> \<bar>x\<bar>" and "\<bar>x\<bar> < 2 powi (e + 1)" and "- 1022 \<le> e"
    and "of_int k - 1 / 2 < x / 2 powi (e - 52)" and "x / 2 powi (e - 52) < of_int k + 1 / 2"
  shows "float_round x = of_int k * 2 powi (e - 52)"
proof -
  from assms(1,2) have e: "ilog2 x = e" by (rule ilog2_eqI)
  have "0 < (2::real) powi e" by (rule zero_less_power_int) simp
  with assms(1) have "0 < \<bar>x\<bar>" by linarith
  then have x0: "x \<noteq> 0" by simp
  let ?y = "x / 2 powi (e - 52)"
  have "\<bar>of_int (rne ?y) - ?y\<bar> \<le> 1 / 2" by (rule rne_error)
  with assms(4,5) have "\<bar>real_of_int (rne ?y) - of_int k\<bar> < 1" by linarith
  then have "\<bar>real_of_int (rne ?y - k)\<bar> < 1" by simp
  then have "\<bar>rne ?y - k\<bar> < 1" by (simp only: of_int_abs[symmetric] of_int_less_1_iff)
  then have "rne ?y = k" by simp
  with e assms(3) x0 show ?thesis by (simp add: float_round_def ulp_def max_def)
qed

lemma small_no_overflow:
  assumes "\<bar>x\<bar> \<le> 2 ^ 63"
  shows "\<not> DBL_OVERFLOW \<le> \<bar>x\<bar>"
  using assms overflow_facts(6) by linarith

lemma e1: "int_truediv 36 14 = Inr (5790342378047781 / 2251799813685248)"
proof -
  have "float_round (36 / 14) = of_int 5790342378047781 * 2 powi (1 - 52)"
    by (rule float_round_eval) (simp_all add: power_int_minus_divide)
  moreover have "\<not> DBL_OVERFLOW \<le> \<bar>36 / 14 :: real\<bar>"
    by (rule small_no_overflow) simp
  ultimately show ?thesis by (simp add: int_truediv_def power_int_minus_divide)
qed

lemma e2: "int_to_float 18 = Inr 18"
proof -
  have "float_round 18 = of_int 5066549580791808 * 2 powi (4 - 52)"
    by (rule float_round_eval) (simp_all add: power_int_minus_divide)
  moreover have "\<not> DBL_OVERFLOW \<le> \<bar>18 :: real\<bar>"
    by (rule small_no_overflow) simp
  ultimately show ?thesis by (simp add: int_to_float_def power_int_minus_divide)
qed

lemma e3:
  "float_truediv 18 (5790342378047781 / 2251799813685248)
     = Inr (Fin (7881299347898367 / 1125899906842624))"
proof -
  have "float_round (18 / (5790342378047781 / 2251799813685248))
      = of_int 7881299347898367 * 2 powi (2 - 52)"
    by (rule float_round_eval) (simp_all add: power_int_minus_divide)
  moreover have "\<not> DBL_OVERFLOW \<le> \<bar>18 / (5790342378047781 / 2251799813685248) :: real\<bar>"
    by (rule small_no_overflow) simp
  ultimately show ?thesis by (simp add: float_truediv_def power_int_minus_divide)
qed

lemma e4: "overlap_count 18 36 14 = Inr 6"
proof -
  have "\<lfloor>7881299347898367 / 1125899906842624 :: real\<rfloor> = 6" by linarith
  with e1 e2 e3 show ?thesis by (simp add: overlap_count_def)
qed

section \<open>Properties of the chunker\<close>

lemma weight_append: "weight (xs @ ys) = weight xs + weight ys"
  by (simp add: weight_def)

lemma weight_nonneg: "0 \<le> weight ws"
  unfolding weight_def by (induction ws) auto

lemma weight_ge_length: "int (length ws) \<le> weight ws"
  unfolding weight_def by (induction ws) auto

lemma weight_drop: "weight (drop j ws) \<le> weight ws"
proof -
  have "weight ws = weight (take j ws) + weight (drop j ws)"
    by (simp flip: weight_append)
  with weight_nonneg[of "take j ws"] show ?thesis by simp
qed

lemma carry_suffix: "suffix (carry m cur) cur"
  by (simp add: carry_def suffix_drop)

lemma weight_carry: "weight (carry m cur) \<le> weight cur"
  using weight_drop[of _ cur] weight_nonneg[of cur] by (simp add: carry_def weight_def)

lemma chunk_loop_words:
  "chunk_loop chunk_size overlap words acc cur len =
     (case chunk_words chunk_size overlap words cur len of
        Inl e \<Rightarrow> Inl e
      | Inr (emitted, final) \<Rightarrow> Inr (acc @ map (str_join blank) emitted, final))"
proof (induction words arbitrary: acc cur len)
  case Nil
  show ?case by simp
next
  case (Cons word words)
  show ?case
    by (simp add: Let_def Cons.IH split: sum.splits prod.splits)
qed

lemma chunk_words_returns:
  assumes "len = weight cur"
    and "real_of_int (weight cur + weight words) < DBL_OVERFLOW"
    and "\<bar>real_of_int overlap\<bar> < DBL_OVERFLOW"
  shows "\<exists>emitted final. chunk_words chunk_size overlap words cur len = Inr (emitted, final)"
  using assms(1,2)
proof (induction words arbitrary: cur len)
  case Nil
  show ?case by simp
next
  case (Cons word words)
  let ?cur = "cur @ [word]"
  let ?len = "len + (int (length word) + 1)"
  have len: "?len = weight ?cur"
    using Cons.prems(1) by (simp add: weight_def)
  have total: "weight ?cur + weight words = weight cur + weight (word # words)"
    by (simp add: weight_def)
  show ?case
  proof (cases "?len \<ge> chunk_size")
    case False
    from Cons.prems(2) total have "real_of_int (weight ?cur + weight words) < DBL_OVERFLOW"
      by simp
    from Cons.IH[OF len this] False show ?thesis by simp
  next
    case True
    have n: "0 < length ?cur" by simp
    have ln: "int (length ?cur) \<le> ?len" using weight_ge_length[of ?cur] len by simp
    from weight_nonneg[of words] Cons.prems(2) total len
    have l: "real_of_int ?len < DBL_OVERFLOW" by linarith
    from overlap_count_returns[OF n ln l assms(3)]
    obtain m where m: "overlap_count overlap ?len (length ?cur) = Inr m" by blast
    let ?next = "carry m ?cur"
    from weight_carry[of m ?cur] Cons.prems(2) total
    have "real_of_int (weight ?next + weight words) < DBL_OVERFLOW" by linarith
    from Cons.IH[OF refl this]
    obtain emitted final where
      "chunk_words chunk_size overlap words ?next (weight ?next) = Inr (emitted, final)"
      by blast
    with True m show ?thesis by simp
  qed
qed

lemma suffix_is_drop:
  assumes "suffix xs ys"
  shows "xs = drop (length ys - length xs) ys"
proof -
  from assms obtain zs where "ys = zs @ xs" by (auto simp: suffix_def)
  then show ?thesis by simp
qed

lemma chunk_words_step:
  assumes "chunk_words chunk_size overlap (word # words) cur len = Inr (emitted, final)"
    and "len + (int (length word) + 1) \<ge> chunk_size"
  obtains m rest where
    "chunk_words chunk_size overlap words (carry m (cur @ [word]))
       (weight (carry m (cur @ [word]))) = Inr (rest, final)"
    and "emitted = (cur @ [word]) # rest"
  using assms by (auto split: sum.splits)

lemma chunk_words_overlaps:
  assumes "chunk_words chunk_size overlap words cur len = Inr (emitted, final)"
    and "k \<le> length prev" and "k \<le> length cur"
    and "take k cur = drop (length prev - k) prev"
  shows "\<exists>ks. overlaps_ok prev ks (emitted @ [final])
           \<and> dedup_concat ks (emitted @ [final]) = drop k cur @ words"
  using assms
proof (induction words arbitrary: cur len emitted k prev)
  case Nil
  then have "overlaps_ok prev [k] (emitted @ [final])
      \<and> dedup_concat [k] (emitted @ [final]) = drop k cur @ []"
    by simp
  then show ?case by blast
next
  case (Cons word words)
  let ?len = "len + (int (length word) + 1)"
  let ?cur = "cur @ [word]"
  have tk: "take k ?cur = drop (length prev - k) prev"
    using Cons.prems(3,4) by simp
  have kl: "k \<le> length ?cur" using Cons.prems(3) by simp
  show ?case
  proof (cases "?len \<ge> chunk_size")
    case False
    with Cons.prems(1) have "chunk_words chunk_size overlap words ?cur ?len = Inr (emitted, final)"
      by simp
    from Cons.IH[OF this Cons.prems(2) kl tk] Cons.prems(3) show ?thesis by simp
  next
    case True
    from Cons.prems(1) True obtain m rest where
      rec: "chunk_words chunk_size overlap words (carry m ?cur) (weight (carry m ?cur))
              = Inr (rest, final)"
      and em: "emitted = ?cur # rest"
      by (rule chunk_words_step)
    let ?next = "carry m ?cur"
    let ?j = "length ?next"
    from carry_suffix[of m ?cur] have suf: "suffix ?next ?cur" .
    then have jl: "?j \<le> length ?cur" by (rule suffix_length_le)
    from suf have nx: "?next = drop (length ?cur - ?j) ?cur"
      by (rule suffix_is_drop)
    have "take ?j ?next = drop (length ?cur - ?j) ?cur" using nx by simp
    from Cons.IH[OF rec jl _ this]
    obtain ks where ks: "overlaps_ok ?cur ks (rest @ [final])"
      "dedup_concat ks (rest @ [final]) = drop ?j ?next @ words"
      by auto
    have "overlaps_ok prev (k # ks) (emitted @ [final])"
      using ks(1) em Cons.prems(2) kl tk by simp
    moreover have "dedup_concat (k # ks) (emitted @ [final]) = drop k cur @ word # words"
      using ks(2) em Cons.prems(3) by simp
    ultimately show ?thesis by blast
  qed
qed

lemma chunk_words_sublist:
  assumes "chunk_words chunk_size overlap words cur len = Inr (emitted, final)"
    and "suffix cur seen"
  shows "\<forall>c\<in>set (emitted @ [final]). sublist c (seen @ words)"
  using assms
proof (induction words arbitrary: cur len emitted seen)
  case Nil
  then show ?case by (auto intro: suffix_imp_sublist)
next
  case (Cons word words)
  let ?len = "len + (int (length word) + 1)"
  let ?cur = "cur @ [word]"
  from Cons.prems(2) have suf: "suffix ?cur (seen @ [word])" by simp
  show ?case
  proof (cases "?len \<ge> chunk_size")
    case False
    with Cons.prems(1) have "chunk_words chunk_size overlap words ?cur ?len = Inr (emitted, final)"
      by simp
    from Cons.IH[OF this suf] show ?thesis by simp
  next
    case True
    from Cons.prems(1) True obtain m rest where
      rec: "chunk_words chunk_size overlap words (carry m ?cur) (weight (carry m ?cur))
              = Inr (rest, final)"
      and em: "emitted = ?cur # rest"
      by (rule chunk_words_step)
    from carry_suffix[of m ?cur] suf have "suffix (carry m ?cur) (seen @ [word])"
      by (rule suffix_order.trans)
    from Cons.IH[OF rec this] have r: "\<forall>c\<in>set (rest @ [final]). sublist c (seen @ word # words)"
      by simp
    from suf obtain ps where "seen @ [word] = ps @ ?cur" by (auto simp: suffix_def)
    then have "seen @ word # words = ps @ ?cur @ words" by simp
    then have "sublist ?cur (seen @ word # words)" by (simp only: sublist_appendI)
    with r em show ?thesis by simp
  qed
qed

lemma chunk_words_nonempty:
  assumes "chunk_words chunk_size overlap words cur len = Inr (emitted, final)"
  shows "\<forall>c\<in>set emitted. c \<noteq> []"
  using assms
proof (induction words arbitrary: cur len emitted)
  case Nil
  then show ?case by simp
next
  case (Cons word words)
  let ?len = "len + (int (length word) + 1)"
  show ?case
  proof (cases "?len \<ge> chunk_size")
    case False
    with Cons.prems have "chunk_words chunk_size overlap words (cur @ [word]) ?len
        = Inr (emitted, final)"
      by simp
    then show ?thesis by (rule Cons.IH)
  next
    case True
    from Cons.prems True obtain m rest where
      rec: "chunk_words chunk_size overlap words (carry m (cur @ [word]))
              (weight (carry m (cur @ [word]))) = Inr (rest, final)"
      and em: "emitted = (cur @ [word]) # rest"
      by (rule chunk_words_step)
    from Cons.IH[OF rec] em show ?thesis by simp
  qed
qed

lemma split_from_proper:
  assumes "\<forall>c\<in>set w. \<not> isspace c"
  shows "\<forall>x\<in>set (split_from w inp). proper x"
  using assms
proof (induction inp arbitrary: w)
  case Nil
  then show ?case by (simp add: proper_def)
next
  case (Cons c cs)
  show ?case
  proof (cases "isspace c")
    case True
    from Cons.IH[of "[]"] have "\<forall>x\<in>set (split_from [] cs). proper x" by simp
    with True Cons.prems show ?thesis by (simp add: proper_def)
  next
    case False
    with Cons.prems have "\<forall>a\<in>set (w @ [c]). \<not> isspace a" by simp
    from Cons.IH[OF this] False show ?thesis by simp
  qed
qed

lemma str_split_proper: "\<forall>x\<in>set (str_split inp). proper x"
  using split_from_proper[of "[]" inp] by (simp add: str_split_def)

lemma weight_split_from: "weight (split_from w inp) \<le> int (length w) + int (length inp) + 1"
proof (induction inp arbitrary: w)
  case Nil
  show ?case by (simp add: weight_def)
next
  case (Cons c cs)
  show ?case
  proof (cases "isspace c")
    case True
    with Cons.IH[of "[]"] show ?thesis by (simp add: weight_def)
  next
    case False
    with Cons.IH[of "w @ [c]"] show ?thesis by simp
  qed
qed

lemma weight_str_split: "weight (str_split inp) \<le> int (length inp) + 1"
  using weight_split_from[of "[]" inp] by (simp add: str_split_def)

lemma split_from_word:
  assumes "\<forall>c\<in>set v. \<not> isspace c"
  shows "split_from w (v @ rest) = split_from (w @ v) rest"
  using assms by (induction v arbitrary: w) auto

lemma isspace_blank: "isspace 32"
  by (simp add: isspace_def)

lemma split_join:
  assumes "\<forall>w\<in>set ws. proper w"
  shows "str_split (str_join blank ws) = ws"
  using assms
proof (induction ws)
  case Nil
  show ?case by (simp add: str_split_def)
next
  case (Cons w ws)
  then have w: "\<forall>c\<in>set w. \<not> isspace c" "w \<noteq> []" by (simp_all add: proper_def)
  show ?case
  proof (cases ws)
    case Nil
    with w split_from_word[of w "[]" "[]"] show ?thesis by (simp add: str_split_def)
  next
    case (Cons v vs)
    with Cons.IH Cons.prems have "split_from [] (str_join blank (v # vs)) = v # vs"
      by (simp add: str_split_def)
    with w Cons split_from_word[of w "[]" "32 # str_join blank (v # vs)"] isspace_blank
    show ?thesis by (simp add: str_split_def blank_def)
  qed
qed

lemma overlaps_drop_last:
  assumes "overlaps_ok prev ks (cs @ [[]])"
  shows "overlaps_ok prev (butlast ks) cs
    \<and> dedup_concat (butlast ks) cs = dedup_concat ks (cs @ [[]])"
  using assms
proof (induction cs arbitrary: prev ks)
  case Nil
  then obtain k where "ks = [k]"
    by (cases ks; cases "tl ks") auto
  then show ?case by simp
next
  case (Cons c cs)
  then obtain k ks' where ks: "ks = k # ks'" by (cases ks) auto
  with Cons.prems have ok: "overlaps_ok c ks' (cs @ [[]])" by simp
  then have "ks' \<noteq> []" by (cases ks'; cases cs) auto
  with Cons.IH[OF ok] Cons.prems ks show ?case by simp
qed

lemma chunk_text_words:
  assumes "\<bar>real_of_int overlap\<bar> < DBL_OVERFLOW" and "length inp < 2 ^ 63"
  obtains emitted final where
    "chunk_words chunk_size overlap (str_split inp) [] 0 = Inr (emitted, final)"
    and "chunk_text inp chunk_size overlap =
           Inr (map (str_join blank) (if final \<noteq> [] then emitted @ [final] else emitted))"
proof -
  from assms(2) have "real (length inp) < 2 ^ 63"
    by (metis of_nat_less_iff of_nat_numeral of_nat_power)
  moreover have "real_of_int (weight (str_split inp)) \<le> real (length inp) + 1"
    using weight_str_split[of inp] by linarith
  ultimately have "real_of_int (weight [] + weight (str_split inp)) < DBL_OVERFLOW"
    using overflow_facts(6) by (simp add: weight_def)
  from chunk_words_returns[OF _ this assms(1), of 0 chunk_size]
  obtain emitted final where
    w: "chunk_words chunk_size overlap (str_split inp) [] 0 = Inr (emitted, final)"
    by (auto simp: weight_def)
  then have "chunk_text inp chunk_size overlap =
      Inr (map (str_join blank) (if final \<noteq> [] then emitted @ [final] else emitted))"
    by (simp add: chunk_text_def chunk_loop_words)
  with w show ?thesis by (rule that)
qed

text \<open>
  C8, as the code has it. For every chunk size, every overlap that Python can
  convert to a float (of magnitude below \<open>2^1024 - 2^970\<close>; so for every such
  overlap below the chunk size) and every text shorter than \<open>2^63\<close> characters, as
  every \<^verbatim>\<open>str\<close> is, \<^verbatim>\<open>chunk_text\<close> returns, and every chunk is the words of a
  non-empty contiguous run of the text's word sequence joined by single blanks, so
  that no word is cut and splitting the chunk gives these words back. There are
  overlap counts, one per chunk, such that the leading words they count are the
  last words of the chunk before, and dropping them from each chunk and
  concatenating what is left gives exactly the word sequence of the text. The empty
  text yields no chunk, whatever the overlap.
\<close>

theorem chunk_text_reconstructs:
  "(\<bar>real_of_int overlap\<bar> < DBL_OVERFLOW \<and> length text < 2 ^ 63 \<longrightarrow>
      (\<exists>cs ks. chunk_text text chunk_size overlap = Inr cs
        \<and> (\<forall>c\<in>set cs. \<exists>ws. ws \<noteq> [] \<and> sublist ws (str_split text)
               \<and> c = str_join blank ws \<and> str_split c = ws)
        \<and> overlaps_ok [] ks (map str_split cs)
        \<and> dedup_concat ks (map str_split cs) = str_split text))
   \<and> chunk_text [] chunk_size overlap = Inr []"
proof (intro conjI impI)
  assume a: "\<bar>real_of_int overlap\<bar> < DBL_OVERFLOW \<and> length text < 2 ^ 63"
  then have a1: "\<bar>real_of_int overlap\<bar> < DBL_OVERFLOW" and a2: "length text < 2 ^ 63"
    by simp_all
  obtain emitted final where
    w: "chunk_words chunk_size overlap (str_split text) [] 0 = Inr (emitted, final)"
    and c: "chunk_text text chunk_size overlap =
           Inr (map (str_join blank) (if final \<noteq> [] then emitted @ [final] else emitted))"
    using a1 a2 by (rule chunk_text_words)
  let ?X = "if final \<noteq> [] then emitted @ [final] else emitted"
  have sub: "\<forall>x\<in>set (emitted @ [final]). sublist x (str_split text)"
    using chunk_words_sublist[OF w, of "[]"] by simp
  have ne: "\<forall>x\<in>set ?X. x \<noteq> []"
    using chunk_words_nonempty[OF w] by auto
  have subX: "\<forall>x\<in>set ?X. sublist x (str_split text)"
    using sub by auto
  have wds: "\<forall>x\<in>set ?X. \<forall>v\<in>set x. proper v"
  proof (intro ballI)
    fix x v assume "x \<in> set ?X" "v \<in> set x"
    with subX have "v \<in> set (str_split text)"
      by (meson set_mono_sublist subsetD)
    with str_split_proper show "proper v" by blast
  qed
  then have rt: "\<forall>x\<in>set ?X. str_split (str_join blank x) = x"
    by (simp add: split_join)
  then have mp: "map str_split (map (str_join blank) ?X) = ?X"
    by (simp add: map_idI)
  from chunk_words_overlaps[OF w, of 0 "[]"]
  obtain ks where ks: "overlaps_ok [] ks (emitted @ [final])"
    "dedup_concat ks (emitted @ [final]) = str_split text"
    by auto
  have "\<exists>ks'. overlaps_ok [] ks' ?X \<and> dedup_concat ks' ?X = str_split text"
  proof (cases "final = []")
    case True
    with ks overlaps_drop_last[of "[]" ks emitted] show ?thesis by auto
  next
    case False
    with ks show ?thesis by auto
  qed
  then obtain ks' where ks': "overlaps_ok [] ks' ?X" "dedup_concat ks' ?X = str_split text"
    by blast
  have parts: "\<forall>c\<in>set (map (str_join blank) ?X). \<exists>ws. ws \<noteq> []
      \<and> sublist ws (str_split text) \<and> c = str_join blank ws \<and> str_split c = ws"
  proof
    fix c assume "c \<in> set (map (str_join blank) ?X)"
    then obtain x where x: "x \<in> set ?X" "c = str_join blank x" by auto
    from x(1) ne have "x \<noteq> []" by blast
    moreover from x(1) subX have "sublist x (str_split text)" by blast
    moreover from x(1) rt have "str_split (str_join blank x) = x" by blast
    ultimately have "x \<noteq> [] \<and> sublist x (str_split text) \<and> c = str_join blank x
        \<and> str_split c = x"
      using x(2) by blast
    then show "\<exists>ws. ws \<noteq> [] \<and> sublist ws (str_split text) \<and> c = str_join blank ws
        \<and> str_split c = ws"
      by blast
  qed
  show "\<exists>cs ks. chunk_text text chunk_size overlap = Inr cs
      \<and> (\<forall>c\<in>set cs. \<exists>ws. ws \<noteq> [] \<and> sublist ws (str_split text)
             \<and> c = str_join blank ws \<and> str_split c = ws)
      \<and> overlaps_ok [] ks (map str_split cs)
      \<and> dedup_concat ks (map str_split cs) = str_split text"
  proof (intro exI conjI)
    show "chunk_text text chunk_size overlap = Inr (map (str_join blank) ?X)"
      by (rule c)
    show "\<forall>c\<in>set (map (str_join blank) ?X). \<exists>ws. ws \<noteq> []
        \<and> sublist ws (str_split text) \<and> c = str_join blank ws \<and> str_split c = ws"
      by (rule parts)
    show "overlaps_ok [] ks' (map str_split (map (str_join blank) ?X))"
      unfolding mp by (rule ks'(1))
    show "dedup_concat ks' (map str_split (map (str_join blank) ?X)) = str_split text"
      unfolding mp by (rule ks'(2))
  qed
next
  show "chunk_text [] chunk_size overlap = Inr []"
    by (simp add: chunk_text_def str_split_def)
qed

lemma overlap_count_18_36:
  assumes "n = 14"
  shows "overlap_count 18 36 n = Inr 6"
  using assms e4 by simp

lemma chunk_text_example:
  "chunk_text text_14 36 18 =
     Inr [py ''aa aa aa aa aa aa aa aa a a a a a a'', py ''a a a a a a'']"
  by (simp add: chunk_text_def text_14_def py_def str_split_def isspace_def Let_def
      overlap_count_18_36 carry_def weight_def blank_def)

theorem chunk_text_reconstructs_witness:
  "(18::int) < 36 \<and> \<bar>real_of_int 18\<bar> < DBL_OVERFLOW \<and> length text_14 < 2 ^ 63
   \<and> chunk_text text_14 36 18 =
       Inr [py ''aa aa aa aa aa aa aa aa a a a a a a'', py ''a a a a a a'']
   \<and> (\<exists>ks. overlaps_ok [] ks
               (map str_split [py ''aa aa aa aa aa aa aa aa a a a a a a'', py ''a a a a a a''])
         \<and> dedup_concat ks
               (map str_split [py ''aa aa aa aa aa aa aa aa a a a a a a'', py ''a a a a a a''])
             = str_split text_14)"
proof -
  have h1: "\<bar>real_of_int 18\<bar> < DBL_OVERFLOW"
    using overflow_facts(6) by simp
  have h2: "length text_14 < 2 ^ 63"
    by (simp add: text_14_def py_def)
  from h1 h2 chunk_text_reconstructs[of 18 text_14 36]
  obtain cs ks where cs: "chunk_text text_14 36 18 = Inr cs"
    and ks: "overlaps_ok [] ks (map str_split cs)"
      "dedup_concat ks (map str_split cs) = str_split text_14"
    by blast
  from cs have "cs = [py ''aa aa aa aa aa aa aa aa a a a a a a'', py ''a a a a a a'']"
    by (simp only: chunk_text_example sum.inject)
  with ks chunk_text_example h1 h2 show ?thesis by auto
qed

text \<open>
  An overlap below the chunk size is not enough: \<^verbatim>\<open>chunk_text\<close> converts the
  overlap to a float at the first chunk it emits, and an overlap of \<open>-2^1024\<close>,
  which is below a chunk size of 5, makes the call raise \<^verbatim>\<open>OverflowError\<close>
  instead of returning chunks.
\<close>

theorem chunk_text_overflow:
  "- (2 ^ 1024) < (5::int)
   \<and> chunk_text (py ''hello world'') 5 (- (2 ^ 1024)) = Inl OverflowError"
  by (simp add: chunk_text_def py_def str_split_def isspace_def Let_def overlap_count_def
      int_truediv_def int_to_float_def DBL_OVERFLOW_def)

end
